theory Spec2Isabelle
  imports Main "HOL-Library.Char_ord" "HOL-Library.List_Lexorder" "HOL-Library.Multiset"
    "HOL-Library.Sublist"
begin

section \<open>Python strings and lists\<close>

text \<open>
  A Python \<open>str\<close> is modelled as a \<open>string\<close>; a \<open>char\<close> stands for a code point below 256.
  Strings compare as Python compares them, lexicographically by code point
  (\<open>Char_ord\<close> with \<open>List_Lexorder\<close>), which is the order \<open>list.sort\<close> uses.
\<close>

definition space :: char where
  "space = CHR '' ''"

definition qmark :: char where
  "qmark = CHR ''?''"

definition dquote :: char where
  "dquote = CHR 0x22"

definition newline :: char where
  "newline = CHR 0x0A"

text \<open>\<open>str.isspace\<close> on one character, for the code points below 256:
  TAB, LF, VT, FF, CR, FS, GS, RS, US, SPACE, NEL and NBSP.\<close>

definition isspace :: "char \<Rightarrow> bool" where
  "isspace c = (let n = (of_char c :: nat)
                in (9 \<le> n \<and> n \<le> 13) \<or> (28 \<le> n \<and> n \<le> 32) \<or> n = 133 \<or> n = 160)"

text \<open>\<open>s.strip()\<close>: leading and trailing whitespace removed.\<close>

definition strip :: "string \<Rightarrow> string" where
  "strip s = rev (dropWhile isspace (rev (dropWhile isspace s)))"

text \<open>\<open>s.split('\n')\<close>: the pieces between newlines; the empty string gives one empty piece.\<close>

fun split_newline :: "string \<Rightarrow> string list" where
  "split_newline [] = [[]]"
| "split_newline (c # cs) =
     (if c = newline then [] # split_newline cs
      else (case split_newline cs of
              [] \<Rightarrow> [[c]]
            | l # ls \<Rightarrow> (c # l) # ls))"

text \<open>\<open>s.startswith(c)\<close> and \<open>s.endswith(c)\<close> for a one-character argument.\<close>

definition startswith :: "string \<Rightarrow> char \<Rightarrow> bool" where
  "startswith s c = (case s of [] \<Rightarrow> False | x # _ \<Rightarrow> x = c)"

definition endswith :: "string \<Rightarrow> char \<Rightarrow> bool" where
  "endswith s c = (case rev s of [] \<Rightarrow> False | x # _ \<Rightarrow> x = c)"

text \<open>\<open>str(n)\<close> for a non-negative integer, as the f-strings of the filter menu print it.\<close>

definition digit :: "nat \<Rightarrow> char" where
  "digit d = char_of (48 + d)"

function str_nat :: "nat \<Rightarrow> string" where
  "str_nat n = (if n < 10 then [digit n] else str_nat (n div 10) @ [digit (n mod 10)])"
  by pat_completeness auto
termination
  by (relation "measure id") auto

datatype exn = IndexError | TypeError | Propagated string

text \<open>\<open>xs[i]\<close>: a negative index counts from the end, an index out of range raises.\<close>

definition getitem :: "'a list \<Rightarrow> int \<Rightarrow> exn + 'a" where
  "getitem xs i =
     (if 0 \<le> i \<and> i < int (length xs) then Inr (xs ! nat i)
      else if i < 0 \<and> - int (length xs) \<le> i then Inr (xs ! nat (int (length xs) + i))
      else Inl IndexError)"

text \<open>\<open>os.path.join(a, b)\<close> of \<open>posixpath\<close>: an absolute \<open>b\<close> replaces \<open>a\<close>; no separator is
  added after an empty \<open>a\<close> or one that ends with the separator.\<close>

definition os_path_join :: "string \<Rightarrow> string \<Rightarrow> string" where
  "os_path_join a b =
     (if startswith b CHR ''/'' then b
      else if a = [] \<or> endswith a CHR ''/'' then a @ b
      else a @ ''/'' @ b)"

section \<open>The host window and the subprocess\<close>

text \<open>
  The window is the external UI shell. The model records every call the command makes on
  it, in order, and which callback the open quick panel holds: \<open>show_quick_panel\<close> opens a
  panel with its \<open>on_select\<close> callback, and the panel later calls it once, with the chosen
  index or with -1 when the user dismisses it. The \<open>flags\<close> and \<open>on_highlight\<close> arguments
  are not recorded.
\<close>

datatype callback = CB_None | CB_on_filter_selected | CB_on_file_selected

datatype items = Rows "string list list" | Paths "string list"

datatype ui_call = ShowQuickPanel items callback string | OpenFile string

record window_state =
  calls :: "ui_call list"
  panel :: callback

definition show_quick_panel :: "items \<Rightarrow> callback \<Rightarrow> string \<Rightarrow> window_state \<Rightarrow> window_state" where
  "show_quick_panel its cb placeholder w =
     w\<lparr>calls := calls w @ [ShowQuickPanel its cb placeholder], panel := cb\<rparr>"

definition open_file :: "string \<Rightarrow> window_state \<Rightarrow> window_state" where
  "open_file path w = w\<lparr>calls := calls w @ [OpenFile path]\<rparr>"

text \<open>What \<open>subprocess.run(..., check=True)\<close> does: it completes with the standard output,
  raises \<open>CalledProcessError\<close> (carrying its message) on a non-zero exit, raises
  \<open>FileNotFoundError\<close> when the executable is missing, or raises something else.\<close>

datatype proc_result =
  Completed string | CalledProcessError string | FileNotFoundError | OtherException string

text \<open>The two git queries. \<open>rev_parse\<close> is the outcome of \<open>git rev-parse --show-toplevel\<close> in
  the directory \<open>_get_working_directory\<close> picks; \<open>git_status\<close> is the outcome of
  \<open>git status --porcelain\<close> run in the given \<open>cwd\<close>.\<close>

record env =
  rev_parse :: proc_result
  git_status :: "string option \<Rightarrow> proc_result"

section \<open>ChangedFilterCommand\<close>

record plugin =
  git_root :: "string option"
  all_files :: "(string \<times> string) list"
  staged_files :: "string list"
  unstaged_files :: "string list"
  current_level :: string
  selected_filter :: "string option"
  window :: window_state

definition show_error :: "string \<Rightarrow> plugin \<Rightarrow> plugin" where
  "show_error message self =
     self\<lparr>window := show_quick_panel (Rows [[message]]) CB_None ''Changed Filter |'' (window self)\<rparr>"

definition check_git_repo :: "env \<Rightarrow> plugin \<Rightarrow> exn + (bool \<times> plugin)" where
  "check_git_repo e self =
     (case rev_parse e of
        Completed stdout \<Rightarrow> Inr (True, self\<lparr>git_root := Some (strip stdout)\<rparr>)
      | CalledProcessError _ \<Rightarrow> Inr (False, self)
      | FileNotFoundError \<Rightarrow> Inr (False, self)
      | OtherException x \<Rightarrow> Inl (Propagated x))"

text \<open>The body of the loop \<open>for line in output.split('\n')\<close>.\<close>

definition parse_line :: "string \<Rightarrow> plugin \<Rightarrow> plugin" where
  "parse_line line self =
     (if length line < 3 then self
      else
        let status = take 2 line;
            file_path0 = strip (drop 3 line);
            file_path = (if startswith file_path0 dquote \<and> endswith file_path0 dquote
                         then butlast (tl file_path0) else file_path0);
            self1 = self\<lparr>all_files := all_files self @ [(file_path, status)]\<rparr>;
            first_char = status ! 0;
            second_char = status ! 1;
            self2 = (if first_char \<noteq> space \<and> first_char \<noteq> qmark
                     then self1\<lparr>staged_files := staged_files self1 @ [file_path]\<rparr>
                     else self1);
            self3 = (if second_char \<noteq> space \<or> status = ''??''
                     then self2\<lparr>unstaged_files := unstaged_files self2 @ [file_path]\<rparr>
                     else self2)
        in self3)"

definition parse_lines :: "string list \<Rightarrow> plugin \<Rightarrow> plugin" where
  "parse_lines ls self = fold parse_line ls self"

definition sort_files :: "plugin \<Rightarrow> plugin" where
  "sort_files self =
     self\<lparr>all_files := sort_key fst (all_files self),
          staged_files := sort (staged_files self),
          unstaged_files := sort (unstaged_files self)\<rparr>"

definition get_changed_files :: "env \<Rightarrow> plugin \<Rightarrow> exn + (bool \<times> plugin)" where
  "get_changed_files e self =
     (case git_status e (git_root self) of
        Completed stdout \<Rightarrow>
          (let output = strip stdout
           in if output = [] then Inr (False, self)
              else let self' = sort_files (parse_lines (split_newline output) self)
                   in Inr (0 < length (all_files self'), self'))
      | CalledProcessError x \<Rightarrow> Inr (False, show_error (''Error running git: '' @ x) self)
      | FileNotFoundError \<Rightarrow> Inr (False, show_error ''Git not found in PATH'' self)
      | OtherException x \<Rightarrow> Inl (Propagated x))"

definition show_filter_selection :: "plugin \<Rightarrow> plugin" where
  "show_filter_selection self =
     (let all_count = card (set (map fst (all_files self)));
          staged_count = length (staged_files self);
          unstaged_count = length (unstaged_files self);
          its = [[''All Changes ('' @ str_nat all_count @ '' files)'',
                  ''Show all staged and unstaged files''],
                 [''Staged Only ('' @ str_nat staged_count @ '' files)'',
                  ''Show only files in the staging area''],
                 [''Unstaged Only ('' @ str_nat unstaged_count @ '' files)'',
                  ''Show only unstaged changes and untracked files'']]
      in self\<lparr>window :=
           show_quick_panel (Rows its) CB_on_filter_selected ''Changed Filter |'' (window self)\<rparr>)"

text \<open>\<open>[f for f in files if not (f in seen or seen.add(f))]\<close>: a file passes when it has
  not been seen, and is then added to \<open>seen\<close>.\<close>

fun remove_duplicates :: "string set \<Rightarrow> string list \<Rightarrow> string list" where
  "remove_duplicates seen [] = []"
| "remove_duplicates seen (f # fs) =
     (if f \<in> seen then remove_duplicates seen fs
      else f # remove_duplicates (insert f seen) fs)"

text \<open>\<open>filter_name.lower()\<close> is written out in the three error messages.\<close>

definition show_file_list :: "plugin \<Rightarrow> plugin" where
  "show_file_list self =
     (let (files, filter_name, lower_name) =
            (if selected_filter self = Some ''all''
             then (remove_duplicates {} (map fst (all_files self)),
                   ''All Changes'', ''all changes'')
             else if selected_filter self = Some ''staged''
             then (staged_files self, ''Staged Only'', ''staged only'')
             else (unstaged_files self, ''Unstaged Only'', ''unstaged only''))
      in if files = [] then show_error (''No '' @ lower_name) self
         else self\<lparr>window :=
                show_quick_panel (Paths files) CB_on_file_selected
                  (''Changed Filter | '' @ filter_name @ '' |'') (window self)\<rparr>)"

definition on_filter_selected :: "int \<Rightarrow> plugin \<Rightarrow> exn + plugin" where
  "on_filter_selected index self =
     (if index = - 1 then Inr self
      else case getitem [''all'', ''staged'', ''unstaged''] index of
             Inl x \<Rightarrow> Inl x
           | Inr t \<Rightarrow> Inr (show_file_list (self\<lparr>selected_filter := Some t\<rparr>)))"

text \<open>The list \<open>_on_file_selected\<close> computes again when a file has been chosen.\<close>

definition selection_files :: "plugin \<Rightarrow> string list" where
  "selection_files self =
     (if selected_filter self = Some ''all''
      then remove_duplicates {} (map fst (all_files self))
      else if selected_filter self = Some ''staged''
      then staged_files self
      else unstaged_files self)"

definition on_file_selected :: "int \<Rightarrow> plugin \<Rightarrow> exn + plugin" where
  "on_file_selected index self =
     (if index = - 1 then Inr (show_filter_selection self)
      else
        let files = selection_files self
        in case getitem files index of
             Inl x \<Rightarrow> Inl x
           | Inr file_path \<Rightarrow>
               (case git_root self of
                  None \<Rightarrow> Inl TypeError
                | Some root \<Rightarrow>
                    Inr (self\<lparr>window := open_file (os_path_join root file_path) (window self)\<rparr>)))"

definition run :: "env \<Rightarrow> plugin \<Rightarrow> exn + plugin" where
  "run e self0 =
     (let self = self0\<lparr>git_root := None, all_files := [], staged_files := [],
                       unstaged_files := [], current_level := ''filter'',
                       selected_filter := None\<rparr>
      in case check_git_repo e self of
           Inl x \<Rightarrow> Inl x
         | Inr (in_repo, self1) \<Rightarrow>
             if \<not> in_repo then Inr (show_error ''Not in a git repository'' self1)
             else (case get_changed_files e self1 of
                     Inl x \<Rightarrow> Inl x
                   | Inr (changed, self2) \<Rightarrow>
                       if \<not> changed then Inr (show_error ''No changed files'' self2)
                       else Inr (show_filter_selection self2)))"

text \<open>The open quick panel answers: it closes, and its callback runs with the index.\<close>

definition close_panel :: "plugin \<Rightarrow> plugin" where
  "close_panel self = self\<lparr>window := (window self)\<lparr>panel := CB_None\<rparr>\<rparr>"

definition deliver :: "int \<Rightarrow> plugin \<Rightarrow> exn + plugin" where
  "deliver index self =
     (case panel (window self) of
        CB_None \<Rightarrow> Inr self
      | CB_on_filter_selected \<Rightarrow> on_filter_selected index (close_panel self)
      | CB_on_file_selected \<Rightarrow> on_file_selected index (close_panel self))"

text \<open>A session: the command runs, then the user answers the panels one after the other.\<close>

fun answers :: "int list \<Rightarrow> plugin \<Rightarrow> exn + plugin" where
  "answers [] self = Inr self"
| "answers (i # is) self =
     (case deliver i self of Inl x \<Rightarrow> Inl x | Inr self' \<Rightarrow> answers is self')"

definition session :: "env \<Rightarrow> plugin \<Rightarrow> int list \<Rightarrow> exn + plugin" where
  "session e self0 is = (case run e self0 of Inl x \<Rightarrow> Inl x | Inr self \<Rightarrow> answers is self)"

text \<open>What holds of the window in every state of a session: the open panel is the one
  shown last, a file menu shows the list \<open>selection_files\<close> gives, and a menu is only open
  when the repository root is known.\<close>

definition session_inv :: "plugin \<Rightarrow> bool" where
  "session_inv self =
     (calls (window self) \<noteq> [] \<and>
      (case last (calls (window self)) of
         OpenFile _ \<Rightarrow> panel (window self) = CB_None
       | ShowQuickPanel its cb ph \<Rightarrow>
           (panel (window self) = cb \<or> panel (window self) = CB_None \<and> cb = CB_on_filter_selected) \<and>
           (cb = CB_None \<or> git_root self \<noteq> None) \<and>
           (case its of
              Paths fs \<Rightarrow> cb = CB_on_file_selected \<and> fs = selection_files self \<and> fs \<noteq> []
            | Rows rs \<Rightarrow> cb \<noteq> CB_on_file_selected)))"

section \<open>Example sessions\<close>

text \<open>A command object before its first run, and a repository at \<open>/repo\<close> with four
  changed files: one staged, one modified in the working tree, one untracked, one both.\<close>

definition ex_start :: plugin where
  "ex_start = \<lparr>git_root = None, all_files = [], staged_files = [], unstaged_files = [],
     current_level = [], selected_filter = None,
     window = \<lparr>calls = [], panel = CB_None\<rparr>\<rparr>"

definition ex_root_stdout :: string where
  "ex_root_stdout = ''/repo'' @ [newline]"

definition ex_stdout :: string where
  "ex_stdout = ''M  a.txt'' @ [newline] @ '' M b.txt'' @ [newline] @ ''?? c.txt'' @ [newline]
     @ ''MM d.txt'' @ [newline]"

definition ex_env :: env where
  "ex_env = \<lparr>rev_parse = Completed ex_root_stdout,
     git_status = (\<lambda>cwd. Completed ex_stdout)\<rparr>"

definition ex_filter_menu :: ui_call where
  "ex_filter_menu = ShowQuickPanel
     (Rows [[''All Changes (4 files)'', ''Show all staged and unstaged files''],
            [''Staged Only (2 files)'', ''Show only files in the staging area''],
            [''Unstaged Only (3 files)'', ''Show only unstaged changes and untracked files'']])
     CB_on_filter_selected ''Changed Filter |''"

definition ex_menu :: plugin where
  "ex_menu = \<lparr>git_root = Some ''/repo'',
     all_files = [(''a.txt'', ''M ''), (''b.txt'', '' M''), (''c.txt'', ''??''), (''d.txt'', ''MM'')],
     staged_files = [''a.txt'', ''d.txt''],
     unstaged_files = [''b.txt'', ''c.txt'', ''d.txt''],
     current_level = ''filter'', selected_filter = None,
     window = \<lparr>calls = [ex_filter_menu], panel = CB_on_filter_selected\<rparr>\<rparr>"

text \<open>The same session after the user has chosen the first entry, "All Changes".\<close>

definition ex_all_menu :: plugin where
  "ex_all_menu = ex_menu\<lparr>selected_filter := Some ''all'',
     window := \<lparr>calls = [ex_filter_menu,
                  ShowQuickPanel (Paths [''a.txt'', ''b.txt'', ''c.txt'', ''d.txt''])
                    CB_on_file_selected ''Changed Filter | All Changes |''],
                panel = CB_on_file_selected\<rparr>\<rparr>"

text \<open>A status output whose last line is a status field and the separator, with no path.\<close>

definition trailing_stdout :: string where
  "trailing_stdout = ''A  x'' @ [newline] @ ''M  '' @ [newline]"

definition trailing_env :: env where
  "trailing_env = \<lparr>rev_parse = Completed ex_root_stdout,
     git_status = (\<lambda>cwd. Completed trailing_stdout)\<rparr>"

definition trailing_menu :: plugin where
  "trailing_menu = \<lparr>git_root = Some ''/repo'',
     all_files = [(''x'', ''A '')],
     staged_files = [''x''],
     unstaged_files = [],
     current_level = ''filter'', selected_filter = None,
     window = \<lparr>calls = [ShowQuickPanel
         (Rows [[''All Changes (1 files)'', ''Show all staged and unstaged files''],
                [''Staged Only (1 files)'', ''Show only files in the staging area''],
                [''Unstaged Only (0 files)'', ''Show only unstaged changes and untracked files'']])
         CB_on_filter_selected ''Changed Filter |''],
       panel = CB_on_filter_selected\<rparr>\<rparr>"

text \<open>A repository with nothing changed, and one in which \<open>git status\<close> fails.\<close>

definition empty_env :: env where
  "empty_env = \<lparr>rev_parse = Completed ex_root_stdout,
     git_status = (\<lambda>cwd. Completed [])\<rparr>"

definition failing_env :: env where
  "failing_env = \<lparr>rev_parse = Completed ex_root_stdout,
     git_status = (\<lambda>cwd. CalledProcessError ''exit status 128'')\<rparr>"

declare str_nat.simps [simp del]

section \<open>Sorting and duplicate removal\<close>

lemma map_insort_key: "map f (insort_key f x xs) = insort (f x) (map f xs)"
  by (induction xs) auto

lemma map_sort_key: "map f (sort_key f xs) = sort (map f xs)"
  by (induction xs) (auto simp: map_insort_key)

lemma sort_map_fst_filter:
  "sort (map fst (filter P xs)) = map fst (filter P (sort_key fst xs))"
  by (simp add: filter_sort map_sort_key)

lemma set_remove_duplicates: "set (remove_duplicates seen fs) = set fs - seen"
  by (induction fs arbitrary: seen) auto

lemma distinct_remove_duplicates: "distinct (remove_duplicates seen fs)"
  by (induction fs arbitrary: seen) (auto simp: set_remove_duplicates)

lemma sorted_remove_duplicates: "sorted fs \<Longrightarrow> sorted (remove_duplicates seen fs)"
  by (induction fs arbitrary: seen) (auto simp: set_remove_duplicates)

lemma remdups_snoc: "remdups (ys @ [f]) = filter (\<lambda>x. x \<noteq> f) (remdups ys) @ [f]"
  by (induction ys) auto

lemma remove_duplicates_filter:
  "remove_duplicates seen fs = filter (\<lambda>x. x \<notin> seen) (rev (remdups (rev fs)))"
proof (induction fs arbitrary: seen)
  case Nil
  show ?case by simp
next
  case (Cons f fs)
  have "(\<lambda>x. x \<notin> seen \<and> x \<noteq> f) = (\<lambda>x. x \<notin> insert f seen)" by auto
  moreover have "f \<in> seen \<Longrightarrow> (\<lambda>x. x \<notin> seen \<and> x \<noteq> f) = (\<lambda>x. x \<notin> seen)" by auto
  ultimately show ?case
    using Cons.IH [of seen] Cons.IH [of "insert f seen"]
    by (simp add: remdups_snoc rev_filter [symmetric])
qed

lemma remove_duplicates_first: "remove_duplicates {} fs = rev (remdups (rev fs))"
  by (simp add: remove_duplicates_filter)

lemma length_remove_duplicates: "length (remove_duplicates {} fs) = card (set fs)"
  by (metis distinct_card distinct_remove_duplicates set_remove_duplicates Diff_empty)

section \<open>Parsing and classification\<close>

lemma parse_line_short: "length l < 3 \<Longrightarrow> parse_line l q = q"
  by (simp add: parse_line_def)

lemma parse_line_staged:
  assumes "staged_files q = map fst (filter (\<lambda>(path, status). status ! 0 \<noteq> CHR '' '' \<and> status ! 0 \<noteq> CHR ''?'') (all_files q))"
  shows "staged_files (parse_line l q) = map fst (filter (\<lambda>(path, status). status ! 0 \<noteq> CHR '' '' \<and> status ! 0 \<noteq> CHR ''?'') (all_files (parse_line l q)))"
  using assms by (simp add: parse_line_def Let_def space_def qmark_def)

lemma parse_line_unstaged:
  assumes "unstaged_files q = map fst (filter (\<lambda>(path, status). status ! 1 \<noteq> CHR '' '' \<or> status = ''??'') (all_files q))"
  shows "unstaged_files (parse_line l q) = map fst (filter (\<lambda>(path, status). status ! 1 \<noteq> CHR '' '' \<or> status = ''??'') (all_files (parse_line l q)))"
  using assms by (simp add: parse_line_def Let_def space_def qmark_def)

lemma parse_lines_staged:
  assumes "staged_files q = map fst (filter (\<lambda>(path, status). status ! 0 \<noteq> CHR '' '' \<and> status ! 0 \<noteq> CHR ''?'') (all_files q))"
  shows "staged_files (parse_lines ls q) = map fst (filter (\<lambda>(path, status). status ! 0 \<noteq> CHR '' '' \<and> status ! 0 \<noteq> CHR ''?'') (all_files (parse_lines ls q)))"
  using assms unfolding parse_lines_def
  by (induction ls arbitrary: q) (simp_all add: parse_line_staged)

lemma parse_lines_unstaged:
  assumes "unstaged_files q = map fst (filter (\<lambda>(path, status). status ! 1 \<noteq> CHR '' '' \<or> status = ''??'') (all_files q))"
  shows "unstaged_files (parse_lines ls q) = map fst (filter (\<lambda>(path, status). status ! 1 \<noteq> CHR '' '' \<or> status = ''??'') (all_files (parse_lines ls q)))"
  using assms unfolding parse_lines_def
  by (induction ls arbitrary: q) (simp_all add: parse_line_unstaged)

lemma sort_files_staged:
  assumes "staged_files q = map fst (filter P (all_files q))"
  shows "staged_files (sort_files q) = map fst (filter P (all_files (sort_files q)))"
  using assms by (simp add: sort_files_def sort_map_fst_filter)

lemma sort_files_unstaged:
  assumes "unstaged_files q = map fst (filter P (all_files q))"
  shows "unstaged_files (sort_files q) = map fst (filter P (all_files (sort_files q)))"
  using assms by (simp add: sort_files_def sort_map_fst_filter)

section \<open>The fields of a session\<close>

lemma show_error_fields [simp]:
  "all_files (show_error m p) = all_files p"
  "staged_files (show_error m p) = staged_files p"
  "unstaged_files (show_error m p) = unstaged_files p"
  "git_root (show_error m p) = git_root p"
  "selected_filter (show_error m p) = selected_filter p"
  by (simp_all add: show_error_def)

lemma show_filter_selection_fields [simp]:
  "all_files (show_filter_selection p) = all_files p"
  "staged_files (show_filter_selection p) = staged_files p"
  "unstaged_files (show_filter_selection p) = unstaged_files p"
  "git_root (show_filter_selection p) = git_root p"
  "selected_filter (show_filter_selection p) = selected_filter p"
  by (simp_all add: show_filter_selection_def Let_def)

lemma show_file_list_fields [simp]:
  "all_files (show_file_list p) = all_files p"
  "staged_files (show_file_list p) = staged_files p"
  "unstaged_files (show_file_list p) = unstaged_files p"
  "git_root (show_file_list p) = git_root p"
  "selected_filter (show_file_list p) = selected_filter p"
  by (simp_all add: show_file_list_def Let_def split: prod.splits)

lemma close_panel_fields [simp]:
  "all_files (close_panel p) = all_files p"
  "staged_files (close_panel p) = staged_files p"
  "unstaged_files (close_panel p) = unstaged_files p"
  "git_root (close_panel p) = git_root p"
  "selected_filter (close_panel p) = selected_filter p"
  "calls (window (close_panel p)) = calls (window p)"
  "panel (window (close_panel p)) = CB_None"
  by (simp_all add: close_panel_def)

lemma parse_lines_Nil [simp]: "parse_lines [] q = q"
  by (simp add: parse_lines_def)

lemma sort_files_empty:
  "all_files q = [] \<Longrightarrow> all_files (sort_files q) = []"
  "staged_files q = [] \<Longrightarrow> staged_files (sort_files q) = []"
  "unstaged_files q = [] \<Longrightarrow> unstaged_files (sort_files q) = []"
  by (simp_all add: sort_files_def)

lemma run_lists:
  assumes "run e p0 = Inr p"
  shows "\<exists>ls q. all_files q = [] \<and> staged_files q = [] \<and> unstaged_files q = [] \<and>
           all_files p = all_files (sort_files (parse_lines ls q)) \<and>
           staged_files p = staged_files (sort_files (parse_lines ls q)) \<and>
           unstaged_files p = unstaged_files (sort_files (parse_lines ls q))"
proof -
  define q0 where "q0 = p0\<lparr>git_root := None, all_files := [], staged_files := [],
                       unstaged_files := [], current_level := ''filter'',
                       selected_filter := None\<rparr>"
  have q0: "all_files q0 = []" "staged_files q0 = []" "unstaged_files q0 = []"
    by (simp_all add: q0_def)
  have triv: "all_files p = [] \<Longrightarrow> staged_files p = [] \<Longrightarrow> unstaged_files p = [] \<Longrightarrow> ?thesis"
    using q0 by (intro exI [of _ "[]"] exI [of _ q0]) (simp add: sort_files_empty)
  show ?thesis
  proof (cases "rev_parse e")
    case (Completed r)
    define q1 where "q1 = q0\<lparr>git_root := Some (strip r)\<rparr>"
    have q1: "all_files q1 = []" "staged_files q1 = []" "unstaged_files q1 = []"
      by (simp_all add: q1_def q0)
    show ?thesis
    proof (cases "git_status e (Some (strip r))")
      case (Completed out)
      show ?thesis
      proof (cases "strip out = []")
        case True
        with assms Completed \<open>rev_parse e = Completed r\<close> have "p = show_error ''No changed files'' q1"
          by (simp add: run_def check_git_repo_def get_changed_files_def q1_def q0_def)
        then show ?thesis using q1 by (intro triv) simp_all
      next
        case False
        let ?p = "sort_files (parse_lines (split_newline (strip out)) q1)"
        from assms Completed False \<open>rev_parse e = Completed r\<close>
        have "p = show_error ''No changed files'' ?p \<or> p = show_filter_selection ?p"
          by (simp add: run_def check_git_repo_def get_changed_files_def q1_def q0_def Let_def
                   split: if_splits)
        then show ?thesis using q1
          by (intro exI [of _ "split_newline (strip out)"] exI [of _ q1]) auto
      qed
    next
      case (CalledProcessError x)
      with assms \<open>rev_parse e = Completed r\<close>
      have "p = show_error ''No changed files'' (show_error (''Error running git: '' @ x) q1)"
        by (simp add: run_def check_git_repo_def get_changed_files_def q1_def q0_def)
      then show ?thesis using q1 by (intro triv) simp_all
    next
      case FileNotFoundError
      with assms \<open>rev_parse e = Completed r\<close>
      have "p = show_error ''No changed files'' (show_error ''Git not found in PATH'' q1)"
        by (simp add: run_def check_git_repo_def get_changed_files_def q1_def q0_def)
      then show ?thesis using q1 by (intro triv) simp_all
    next
      case (OtherException x)
      with assms \<open>rev_parse e = Completed r\<close> show ?thesis
        by (simp add: run_def check_git_repo_def get_changed_files_def)
    qed
  next
    case (CalledProcessError x)
    with assms have "p = show_error ''Not in a git repository'' q0"
      by (simp add: run_def check_git_repo_def q0_def)
    then show ?thesis using q0 by (intro triv) simp_all
  next
    case FileNotFoundError
    with assms have "p = show_error ''Not in a git repository'' q0"
      by (simp add: run_def check_git_repo_def q0_def)
    then show ?thesis using q0 by (intro triv) simp_all
  next
    case (OtherException x)
    with assms show ?thesis by (simp add: run_def check_git_repo_def)
  qed
qed

lemma on_filter_selected_fields:
  assumes "on_filter_selected i p = Inr p'"
  shows "all_files p' = all_files p" "staged_files p' = staged_files p"
    "unstaged_files p' = unstaged_files p" "git_root p' = git_root p"
  using assms by (auto simp: on_filter_selected_def split: if_splits sum.splits)

lemma on_file_selected_fields:
  assumes "on_file_selected i p = Inr p'"
  shows "all_files p' = all_files p" "staged_files p' = staged_files p"
    "unstaged_files p' = unstaged_files p" "git_root p' = git_root p"
    "selected_filter p' = selected_filter p"
  using assms by (auto simp: on_file_selected_def Let_def split: if_splits sum.splits option.splits)

lemma deliver_fields:
  assumes "deliver i p = Inr p'"
  shows "all_files p' = all_files p" "staged_files p' = staged_files p"
    "unstaged_files p' = unstaged_files p" "git_root p' = git_root p"
  using assms on_filter_selected_fields [of i "close_panel p" p']
    on_file_selected_fields [of i "close_panel p" p']
  by (auto simp: deliver_def split: callback.splits)

lemma answers_fields:
  assumes "answers is p = Inr p'"
  shows "all_files p' = all_files p \<and> staged_files p' = staged_files p \<and>
    unstaged_files p' = unstaged_files p \<and> git_root p' = git_root p"
  using assms
proof (induction "is" arbitrary: p)
  case Nil
  then show ?case by simp
next
  case (Cons i "is")
  then obtain p1 where d: "deliver i p = Inr p1" and a: "answers is p1 = Inr p'"
    by (auto split: sum.splits)
  from Cons.IH [OF a] deliver_fields [OF d] show ?case by simp
qed

lemma session_lists:
  assumes "session e p0 is = Inr p"
  shows "\<exists>ls q. all_files q = [] \<and> staged_files q = [] \<and> unstaged_files q = [] \<and>
           all_files p = all_files (sort_files (parse_lines ls q)) \<and>
           staged_files p = staged_files (sort_files (parse_lines ls q)) \<and>
           unstaged_files p = unstaged_files (sort_files (parse_lines ls q))"
proof -
  from assms obtain p1 where r: "run e p0 = Inr p1" and a: "answers is p1 = Inr p"
    by (auto simp: session_def split: sum.splits)
  from run_lists [OF r] answers_fields [OF a] show ?thesis by simp
qed

section \<open>The window in a session\<close>

lemma show_error_window [simp]:
  "calls (window (show_error m p)) = calls (window p) @ [ShowQuickPanel (Rows [[m]]) CB_None ''Changed Filter |'']"
  "panel (window (show_error m p)) = CB_None"
  by (simp_all add: show_error_def show_quick_panel_def)

lemma show_filter_selection_window [simp]:
  "panel (window (show_filter_selection p)) = CB_on_filter_selected"
  "\<exists>rs. calls (window (show_filter_selection p)) =
     calls (window p) @ [ShowQuickPanel (Rows rs) CB_on_filter_selected ''Changed Filter |'']"
  by (simp_all add: show_filter_selection_def show_quick_panel_def Let_def)

lemma selection_files_cong:
  "all_files p = all_files q \<Longrightarrow> staged_files p = staged_files q \<Longrightarrow>
   unstaged_files p = unstaged_files q \<Longrightarrow> selected_filter p = selected_filter q \<Longrightarrow>
   selection_files p = selection_files q"
  by (simp add: selection_files_def)

lemma session_inv_show_error: "session_inv (show_error m p)"
  by (simp add: session_inv_def)

lemma session_inv_show_filter_selection:
  assumes "git_root p \<noteq> None"
  shows "session_inv (show_filter_selection p)"
proof -
  obtain rs where "calls (window (show_filter_selection p)) =
     calls (window p) @ [ShowQuickPanel (Rows rs) CB_on_filter_selected ''Changed Filter |'']"
    using show_filter_selection_window(2) by blast
  with assms show ?thesis by (simp add: session_inv_def)
qed

lemma parse_line_other_fields [simp]:
  "git_root (parse_line l q) = git_root q"
  "selected_filter (parse_line l q) = selected_filter q"
  "window (parse_line l q) = window q"
  by (simp_all add: parse_line_def Let_def)

lemma parse_lines_other_fields [simp]:
  "git_root (parse_lines ls q) = git_root q"
  "selected_filter (parse_lines ls q) = selected_filter q"
  "window (parse_lines ls q) = window q"
  unfolding parse_lines_def by (induction ls arbitrary: q) simp_all

lemma sort_files_other_fields [simp]:
  "git_root (sort_files q) = git_root q"
  "selected_filter (sort_files q) = selected_filter q"
  "window (sort_files q) = window q"
  by (simp_all add: sort_files_def)

lemma session_inv_show_file_list:
  "git_root p \<noteq> None \<Longrightarrow> session_inv (show_file_list p)"
  by (auto simp: session_inv_def show_file_list_def show_error_def show_quick_panel_def
      selection_files_def Let_def)

lemma run_git_root:
  assumes "run e p0 = Inr p" and "panel (window p) \<noteq> CB_None"
  shows "git_root p \<noteq> None"
  using assms
  by (auto simp: run_def check_git_repo_def get_changed_files_def Let_def
      split: proc_result.splits if_splits)

lemma run_session_inv:
  assumes "run e p0 = Inr p"
  shows "session_inv p"
  using assms
  by (auto simp: run_def check_git_repo_def get_changed_files_def Let_def
      session_inv_show_error session_inv_show_filter_selection
      split: proc_result.splits if_splits)

lemma session_inv_close_filter:
  assumes "session_inv p" and "panel (window p) = CB_on_filter_selected"
  shows "session_inv (close_panel p)"
  using assms
  by (auto simp: session_inv_def close_panel_def selection_files_def
      split: ui_call.splits items.splits)

lemma deliver_session_inv:
  assumes "session_inv p" and "deliver i p = Inr p'"
  shows "session_inv p'"
proof (cases "panel (window p)")
  case CB_None
  with assms show ?thesis by (simp add: deliver_def)
next
  case CB_on_filter_selected
  from assms CB_on_filter_selected have root: "git_root p \<noteq> None"
    by (auto simp: session_inv_def split: ui_call.splits)
  show ?thesis
  proof (cases "i = - 1")
    case True
    with assms CB_on_filter_selected have "p' = close_panel p"
      by (simp add: deliver_def on_filter_selected_def)
    with session_inv_close_filter [OF assms(1) CB_on_filter_selected] show ?thesis by simp
  next
    case False
    with assms CB_on_filter_selected obtain t where
      "p' = show_file_list ((close_panel p)\<lparr>selected_filter := Some t\<rparr>)"
      by (auto simp: deliver_def on_filter_selected_def split: sum.splits)
    with root show ?thesis by (simp add: session_inv_show_file_list)
  qed
next
  case CB_on_file_selected
  from assms CB_on_file_selected have root: "git_root p \<noteq> None"
    by (auto simp: session_inv_def split: ui_call.splits)
  show ?thesis
  proof (cases "i = - 1")
    case True
    with assms CB_on_file_selected have "p' = show_filter_selection (close_panel p)"
      by (simp add: deliver_def on_file_selected_def)
    with root show ?thesis by (simp add: session_inv_show_filter_selection)
  next
    case False
    with assms CB_on_file_selected obtain path where
      "p' = (close_panel p)\<lparr>window := open_file path (window (close_panel p))\<rparr>"
      by (auto simp: deliver_def on_file_selected_def Let_def split: sum.splits option.splits)
    then show ?thesis by (simp add: session_inv_def open_file_def close_panel_def)
  qed
qed

lemma answers_session_inv:
  assumes "session_inv p" and "answers is p = Inr p'"
  shows "session_inv p'"
  using assms
proof (induction "is" arbitrary: p)
  case Nil
  then show ?case by simp
next
  case (Cons i "is")
  then obtain p1 where d: "deliver i p = Inr p1" and a: "answers is p1 = Inr p'"
    by (auto split: sum.splits)
  from Cons.IH [OF deliver_session_inv [OF Cons.prems(1) d] a] show ?case .
qed

lemma session_session_inv:
  assumes "session e p0 is = Inr p"
  shows "session_inv p"
proof -
  from assms obtain p1 where r: "run e p0 = Inr p1" and a: "answers is p1 = Inr p"
    by (auto simp: session_def split: sum.splits)
  from answers_session_inv [OF run_session_inv [OF r] a] show ?thesis .
qed

section \<open>The stripped output and the raw output\<close>

text \<open>The lines of the stripped output are, in order, lines of the raw output, each of
  them no longer than the raw line it comes from.\<close>

lemma split_newline_nonempty: "split_newline s \<noteq> []"
  by (induction s) (auto split: list.splits)

lemma list_emb_length_refl: "list_emb (\<lambda>l r. length l \<le> length r) xs xs"
  by (rule list_emb_refl) simp

lemma list_emb_length_trans:
  assumes "list_emb (\<lambda>l r. length l \<le> length r) xs ys"
    and "list_emb (\<lambda>l r. length l \<le> length r) ys zs"
  shows "list_emb (\<lambda>l r. length l \<le> length (r :: 'a list)) (xs :: 'a list list) zs"
  using assms(1,2) by (rule list_emb_trans [rotated]) simp

lemma split_newline_Cons_emb:
  "list_emb (\<lambda>l r. length l \<le> length r) (split_newline u) (split_newline (c # u))"
proof (cases "c = newline")
  case True
  then show ?thesis by (simp add: list_emb_Cons list_emb_length_refl)
next
  case False
  obtain l ls where u: "split_newline u = l # ls"
    using split_newline_nonempty [of u] by (cases "split_newline u") auto
  with False show ?thesis by (simp add: list_emb_Cons2 list_emb_length_refl)
qed

lemma split_newline_snoc:
  "split_newline (u @ [c]) =
     (if c = newline then split_newline u @ [[]]
      else butlast (split_newline u) @ [last (split_newline u) @ [c]])"
  by (induction u) (auto simp: split_newline_nonempty split: list.splits)

lemma split_newline_snoc_emb:
  "list_emb (\<lambda>l r. length l \<le> length r) (split_newline u) (split_newline (u @ [c]))"
proof (cases "c = newline")
  case True
  then show ?thesis
    by (simp add: split_newline_snoc list_emb_prefix list_emb_length_refl)
next
  case False
  have "list_emb (\<lambda>l r. length l \<le> length r)
          (butlast (split_newline u) @ [last (split_newline u)])
          (butlast (split_newline u) @ [last (split_newline u) @ [c]])"
    by (intro list_emb_append_mono list_emb_length_refl list_emb_Cons2) simp_all
  with False show ?thesis
    by (simp add: split_newline_snoc split_newline_nonempty)
qed

lemma dropWhile_emb:
  "list_emb (\<lambda>l r. length l \<le> length r)
     (split_newline (dropWhile Q s)) (split_newline s)"
proof (induction s)
  case Nil
  show ?case by (simp add: list_emb_length_refl)
next
  case (Cons c s)
  show ?case
  proof (cases "Q c")
    case True
    with list_emb_length_trans [OF Cons.IH split_newline_Cons_emb [of s c]]
    show ?thesis by simp
  next
    case False
    then show ?thesis by (simp add: list_emb_length_refl del: split_newline.simps)
  qed
qed

lemma rev_dropWhile_emb:
  "list_emb (\<lambda>l r. length l \<le> length r)
     (split_newline (rev (dropWhile Q (rev s)))) (split_newline s)"
proof (induction s rule: rev_induct)
  case Nil
  show ?case by (simp add: list_emb_length_refl)
next
  case (snoc c s)
  show ?case
  proof (cases "Q c")
    case True
    with list_emb_length_trans [OF snoc.IH split_newline_snoc_emb [of s c]]
    show ?thesis by simp
  next
    case False
    then show ?thesis by (simp add: list_emb_length_refl)
  qed
qed

lemma strip_emb:
  "list_emb (\<lambda>l r. length l \<le> length r) (split_newline (strip out)) (split_newline out)"
  unfolding strip_def
  by (rule list_emb_length_trans [OF rev_dropWhile_emb dropWhile_emb])

section \<open>The examples, evaluated\<close>

lemma ex_run: "run ex_env ex_start = Inr ex_menu"
  by code_simp

lemma ex_session_start: "session ex_env ex_start [] = Inr ex_menu"
  by (simp add: session_def ex_run)

lemma ex_deliver_all: "deliver 0 ex_menu = Inr ex_all_menu"
  by code_simp

lemma ex_session_all: "session ex_env ex_start [0] = Inr ex_all_menu"
  by (simp add: session_def ex_run ex_deliver_all)

lemma trailing_run: "run trailing_env ex_start = Inr trailing_menu"
  by code_simp

section \<open>Claims about parsing and classification\<close>

lemma parse_line_long:
  assumes "3 \<le> length line"
  shows "\<exists>path. all_files (parse_line line q) = all_files q @ [(path, take 2 line)] \<and>
     staged_files (parse_line line q) =
       (if line ! 0 \<noteq> CHR '' '' \<and> line ! 0 \<noteq> CHR ''?'' then staged_files q @ [path]
        else staged_files q) \<and>
     unstaged_files (parse_line line q) =
       (if line ! 1 \<noteq> CHR '' '' \<or> take 2 line = ''??'' then unstaged_files q @ [path]
        else unstaged_files q)"
  using assms by (simp add: parse_line_def Let_def space_def qmark_def)

lemma session_staged:
  assumes "session e p0 is = Inr p"
  shows "staged_files p = map fst (filter (\<lambda>(path, status). status ! 0 \<noteq> CHR '' '' \<and> status ! 0 \<noteq> CHR ''?'') (all_files p))"
proof -
  from session_lists [OF assms] obtain ls q where
    q: "all_files q = []" "staged_files q = []" and
    p: "all_files p = all_files (sort_files (parse_lines ls q))"
       "staged_files p = staged_files (sort_files (parse_lines ls q))"
    by blast
  from q have "staged_files q = map fst (filter (\<lambda>(path, status). status ! 0 \<noteq> CHR '' '' \<and> status ! 0 \<noteq> CHR ''?'') (all_files q))"
    by simp
  from sort_files_staged [OF parse_lines_staged [OF this]] p show ?thesis by simp
qed

lemma session_unstaged:
  assumes "session e p0 is = Inr p"
  shows "unstaged_files p = map fst (filter (\<lambda>(path, status). status ! 1 \<noteq> CHR '' '' \<or> status = ''??'') (all_files p))"
proof -
  from session_lists [OF assms] obtain ls q where
    q: "all_files q = []" "unstaged_files q = []" and
    p: "all_files p = all_files (sort_files (parse_lines ls q))"
       "unstaged_files p = unstaged_files (sort_files (parse_lines ls q))"
    by blast
  from q have "unstaged_files q = map fst (filter (\<lambda>(path, status). status ! 1 \<noteq> CHR '' '' \<or> status = ''??'') (all_files q))"
    by simp
  from sort_files_unstaged [OF parse_lines_unstaged [OF this]] p show ?thesis by simp
qed

lemma session_sorted:
  assumes "session e p0 is = Inr p"
  shows "sorted (map fst (all_files p))" "sorted (staged_files p)" "sorted (unstaged_files p)"
proof -
  from session_lists [OF assms] obtain ls q where
    p: "all_files p = all_files (sort_files (parse_lines ls q))"
       "staged_files p = staged_files (sort_files (parse_lines ls q))"
       "unstaged_files p = unstaged_files (sort_files (parse_lines ls q))"
    by blast
  from p show "sorted (map fst (all_files p))" "sorted (staged_files p)"
    "sorted (unstaged_files p)"
    by (simp_all add: sort_files_def)
qed

text \<open>
  Claim C1. In every state of a session, the staged list holds the paths of exactly the
  parsed records whose index-status character, the first character of the status field,
  is neither a space nor \<open>?\<close>, one entry per such record and in the order of the records.
  In the loop, a line of at least three characters yields one record, and the path of that
  record is appended to the staged list if and only if that character is neither a space
  nor \<open>?\<close>.
\<close>

theorem staged_iff_index_status:
  assumes "session e p0 is = Inr p" and "3 \<le> length line"
  shows "staged_files p =
      map fst (filter (\<lambda>(path, status). status ! 0 \<noteq> CHR '' '' \<and> status ! 0 \<noteq> CHR ''?'')
                 (all_files p)) \<and>
    (\<exists>path. all_files (parse_line line q) = all_files q @ [(path, take 2 line)] \<and>
       staged_files (parse_line line q) =
         (if line ! 0 \<noteq> CHR '' '' \<and> line ! 0 \<noteq> CHR ''?'' then staged_files q @ [path]
          else staged_files q))"
  using session_staged [OF assms(1)] parse_line_long [OF assms(2), of q] by blast

theorem staged_iff_index_status_witness:
  "session ex_env ex_start [] = Inr ex_menu \<and> 3 \<le> length ''M  a.txt'' \<and>
   staged_files ex_menu = [''a.txt'', ''d.txt''] \<and>
   map fst (filter (\<lambda>(path, status). status ! 0 \<noteq> CHR '' '' \<and> status ! 0 \<noteq> CHR ''?'')
     (all_files ex_menu)) = [''a.txt'', ''d.txt''] \<and>
   (\<exists>path. all_files (parse_line ''M  a.txt'' ex_start) = all_files ex_start @ [(path, ''M '')] \<and>
      staged_files (parse_line ''M  a.txt'' ex_start) = staged_files ex_start @ [path])"
proof -
  have len: "3 \<le> length ''M  a.txt''" by simp
  from staged_iff_index_status [OF ex_session_start len, of ex_start] ex_session_start
  show ?thesis by (simp add: ex_menu_def)
qed

text \<open>
  Claim C2. In every state of a session, the unstaged list holds the paths of exactly the
  parsed records whose worktree-status character, the second character of the status
  field, is not a space, or whose status field is \<open>??\<close>. In the loop, the path of the record
  a line yields is appended to the unstaged list if and only if that condition holds.
\<close>

theorem unstaged_iff_worktree_status:
  assumes "session e p0 is = Inr p" and "3 \<le> length line"
  shows "unstaged_files p =
      map fst (filter (\<lambda>(path, status). status ! 1 \<noteq> CHR '' '' \<or> status = ''??'')
                 (all_files p)) \<and>
    (\<exists>path. all_files (parse_line line q) = all_files q @ [(path, take 2 line)] \<and>
       unstaged_files (parse_line line q) =
         (if line ! 1 \<noteq> CHR '' '' \<or> take 2 line = ''??'' then unstaged_files q @ [path]
          else unstaged_files q))"
  using session_unstaged [OF assms(1)] parse_line_long [OF assms(2), of q] by blast

theorem unstaged_iff_worktree_status_witness:
  "session ex_env ex_start [] = Inr ex_menu \<and> 3 \<le> length ''?? c.txt'' \<and>
   unstaged_files ex_menu = [''b.txt'', ''c.txt'', ''d.txt''] \<and>
   map fst (filter (\<lambda>(path, status). status ! 1 \<noteq> CHR '' '' \<or> status = ''??'')
     (all_files ex_menu)) = [''b.txt'', ''c.txt'', ''d.txt''] \<and>
   (\<exists>path. all_files (parse_line ''?? c.txt'' ex_start) = all_files ex_start @ [(path, ''??'')] \<and>
      unstaged_files (parse_line ''?? c.txt'' ex_start) = unstaged_files ex_start @ [path])"
proof -
  have len: "3 \<le> length ''?? c.txt''" by simp
  from unstaged_iff_worktree_status [OF ex_session_start len, of ex_start] ex_session_start
  show ?thesis by (simp add: ex_menu_def)
qed

text \<open>
  Claim C4. A line shorter than three characters is discarded: the loop body leaves every
  field as it was, so the line adds nothing to the all, staged or unstaged lists, and
  parsing a sequence of lines gives the same result with the short line or without it.
  Stripping the output makes no line longer: the lines the loop iterates over are, in
  order, lines of the raw output, each no longer than the raw line it comes from, so a raw
  line shorter than three characters reaches the loop shorter than three characters or
  not at all.
\<close>

theorem short_line_discarded:
  assumes "length line < 3"
  shows "parse_line line q = q \<and>
    parse_lines (before @ line # after) q = parse_lines (before @ after) q \<and>
    list_emb (\<lambda>l r. length l \<le> length r) (split_newline (strip out)) (split_newline out)"
  using assms by (simp add: parse_lines_def parse_line_short strip_emb)

theorem short_line_discarded_witness:
  "length ''??'' < 3 \<and> parse_line ''??'' ex_start = ex_start \<and>
   parse_lines ([''M  a.txt''] @ ''??'' # [''?? c.txt'']) ex_start =
   parse_lines ([''M  a.txt''] @ [''?? c.txt'']) ex_start \<and>
   list_emb (\<lambda>l r. length l \<le> length r) [''M'', ''M  a'', ''A'']
     ['' M'', ''M  a'', ''A '', []]"
proof -
  have len: "length ''??'' < 3" by simp
  have out: "split_newline (strip ('' M'' @ [newline] @ ''M  a'' @ [newline] @ ''A '' @ [newline]))
      = [''M'', ''M  a'', ''A'']"
    "split_newline ('' M'' @ [newline] @ ''M  a'' @ [newline] @ ''A '' @ [newline])
      = ['' M'', ''M  a'', ''A '', []]"
    by (simp_all add: strip_def isspace_def newline_def)
  from short_line_discarded [OF len, of ex_start "[''M  a.txt'']" "[''?? c.txt'']"
      "'' M'' @ [newline] @ ''M  a'' @ [newline] @ ''A '' @ [newline]"]
  show ?thesis unfolding out by simp
qed

section \<open>Claims about the presented lists\<close>

lemma session_file_menu:
  assumes "session e p0 is = Inr p"
    and "last (calls (window p)) = ShowQuickPanel (Paths fs) cb ph"
  shows "cb = CB_on_file_selected" "fs = selection_files p" "fs \<noteq> []"
    "panel (window p) = CB_on_file_selected" "git_root p \<noteq> None"
  using session_session_inv [OF assms(1)] assms(2)
  by (auto simp: session_inv_def)

text \<open>
  Claim C3. In every state of a session the three lists are sorted by path, in the order
  of Python's strings (lexicographic by code point). The list presented for "all" is
  sorted, holds every path of the records exactly once, and is the list of first
  occurrences. Whatever file menu is open shows a sorted list, and under the "all" filter
  a list without duplicates that holds every path. A record that is both staged and
  unstaged has its path in the staged list and in the unstaged list.
\<close>

theorem presented_lists_sorted:
  assumes "session e p0 is = Inr p"
  shows "sorted (staged_files p) \<and> sorted (unstaged_files p) \<and> sorted (map fst (all_files p)) \<and>
    sorted (remove_duplicates {} (map fst (all_files p))) \<and>
    distinct (remove_duplicates {} (map fst (all_files p))) \<and>
    set (remove_duplicates {} (map fst (all_files p))) = fst ` set (all_files p) \<and>
    remove_duplicates {} (map fst (all_files p)) = rev (remdups (rev (map fst (all_files p)))) \<and>
    (last (calls (window p)) = ShowQuickPanel (Paths fs) cb ph \<longrightarrow>
       sorted fs \<and>
       (selected_filter p = Some ''all'' \<longrightarrow> distinct fs \<and> set fs = fst ` set (all_files p))) \<and>
    ((path, status) \<in> set (all_files p) \<and> status ! 0 \<noteq> CHR '' '' \<and> status ! 0 \<noteq> CHR ''?'' \<and>
       (status ! 1 \<noteq> CHR '' '' \<or> status = ''??'') \<longrightarrow>
       path \<in> set (staged_files p) \<and> path \<in> set (unstaged_files p))"
proof -
  note srt = session_sorted [OF assms]
  have dd: "sorted (remove_duplicates {} (map fst (all_files p)))"
    "distinct (remove_duplicates {} (map fst (all_files p)))"
    "set (remove_duplicates {} (map fst (all_files p))) = fst ` set (all_files p)"
    using srt(1) by (simp_all add: sorted_remove_duplicates distinct_remove_duplicates
        set_remove_duplicates)
  have menu: "sorted fs \<and>
       (selected_filter p = Some ''all'' \<longrightarrow> distinct fs \<and> set fs = fst ` set (all_files p))"
    if "last (calls (window p)) = ShowQuickPanel (Paths fs) cb ph"
  proof -
    have "fs = selection_files p" using session_file_menu(2) [OF assms that] .
    then show ?thesis using srt dd by (simp add: selection_files_def)
  qed
  have both: "path \<in> set (staged_files p) \<and> path \<in> set (unstaged_files p)"
    if "(path, status) \<in> set (all_files p)" "status ! 0 \<noteq> CHR '' '' \<and> status ! 0 \<noteq> CHR ''?''"
      "status ! 1 \<noteq> CHR '' '' \<or> status = ''??''"
  proof -
    have "(path, status) \<in> set (filter (\<lambda>(path, status). status ! 0 \<noteq> CHR '' '' \<and> status ! 0 \<noteq> CHR ''?'') (all_files p))"
      using that by simp
    then have "fst (path, status) \<in> set (staged_files p)"
      unfolding session_staged [OF assms] set_map by (rule imageI)
    moreover have "(path, status) \<in> set (filter (\<lambda>(path, status). status ! 1 \<noteq> CHR '' '' \<or> status = ''??'') (all_files p))"
      using that by simp
    then have "fst (path, status) \<in> set (unstaged_files p)"
      unfolding session_unstaged [OF assms] set_map by (rule imageI)
    ultimately show ?thesis by simp
  qed
  from srt dd menu both show ?thesis
    by (simp add: remove_duplicates_first)
qed

theorem presented_lists_sorted_witness:
  "session ex_env ex_start [0] = Inr ex_all_menu \<and>
   last (calls (window ex_all_menu)) =
     ShowQuickPanel (Paths [''a.txt'', ''b.txt'', ''c.txt'', ''d.txt'']) CB_on_file_selected
       ''Changed Filter | All Changes |'' \<and>
   selected_filter ex_all_menu = Some ''all'' \<and>
   (''d.txt'', ''MM'') \<in> set (all_files ex_all_menu) \<and>
   sorted (staged_files ex_all_menu) \<and> sorted (unstaged_files ex_all_menu) \<and>
   sorted [''a.txt'', ''b.txt'', ''c.txt'', ''d.txt''] \<and>
   distinct [''a.txt'', ''b.txt'', ''c.txt'', ''d.txt''] \<and>
   set [''a.txt'', ''b.txt'', ''c.txt'', ''d.txt''] = fst ` set (all_files ex_all_menu) \<and>
   ''d.txt'' \<in> set (staged_files ex_all_menu) \<and> ''d.txt'' \<in> set (unstaged_files ex_all_menu)"
proof -
  have ex: "last (calls (window ex_all_menu)) =
     ShowQuickPanel (Paths [''a.txt'', ''b.txt'', ''c.txt'', ''d.txt'']) CB_on_file_selected
       ''Changed Filter | All Changes |''"
    "selected_filter ex_all_menu = Some ''all''"
    "(''d.txt'', ''MM'') \<in> set (all_files ex_all_menu)"
    by (simp_all add: ex_all_menu_def ex_menu_def)
  from presented_lists_sorted [OF ex_session_all,
      of "[''a.txt'', ''b.txt'', ''c.txt'', ''d.txt'']" CB_on_file_selected
         "''Changed Filter | All Changes |''" "''d.txt''" "''MM''"] ex ex_session_all
  show ?thesis by simp
qed

lemma parse_line_grows:
  "set (all_files q) \<subseteq> set (all_files (parse_line l q))"
  "set (staged_files q) \<subseteq> set (staged_files (parse_line l q))"
  "set (unstaged_files q) \<subseteq> set (unstaged_files (parse_line l q))"
  by (auto simp: parse_line_def Let_def)

lemma parse_lines_grows:
  "set (all_files q) \<subseteq> set (all_files (parse_lines ls q))"
  "set (staged_files q) \<subseteq> set (staged_files (parse_lines ls q))"
  "set (unstaged_files q) \<subseteq> set (unstaged_files (parse_lines ls q))"
  unfolding parse_lines_def
  using parse_line_grows by (induction ls arbitrary: q) (simp_all, blast+)

lemma parse_lines_append: "parse_lines (xs @ ys) q = parse_lines ys (parse_lines xs q)"
  by (simp add: parse_lines_def)

lemma parse_lines_Cons: "parse_lines (l # ls) q = parse_lines ls (parse_line l q)"
  by (simp add: parse_lines_def)

lemma set_sort_files [simp]:
  "set (all_files (sort_files q)) = set (all_files q)"
  "set (staged_files (sort_files q)) = set (staged_files q)"
  "set (unstaged_files (sort_files q)) = set (unstaged_files q)"
  by (simp_all add: sort_files_def)

lemma parse_line_three:
  assumes "length line = 3"
  shows "parse_line line q =
    q\<lparr>all_files := all_files q @ [([], take 2 line)],
      staged_files := (if line ! 0 \<noteq> CHR '' '' \<and> line ! 0 \<noteq> CHR ''?''
                       then staged_files q @ [[]] else staged_files q),
      unstaged_files := (if line ! 1 \<noteq> CHR '' '' \<or> take 2 line = ''??''
                         then unstaged_files q @ [[]] else unstaged_files q)\<rparr>"
  using assms
  by (simp add: parse_line_def Let_def strip_def startswith_def space_def qmark_def)

text \<open>
  Claim C9, for the lines the loop iterates over, which are the pieces of the stripped
  output. A line of exactly three characters is not discarded: it yields a record whose
  path is empty and whose status is the first two characters, appended to the staged and
  unstaged lists by the same two tests as any other record, and the record is in the
  lists when the loop and the sorting are done.
\<close>

theorem line_of_length_three_kept:
  assumes "length line = 3"
  shows "parse_line line q =
      q\<lparr>all_files := all_files q @ [([], take 2 line)],
        staged_files := (if line ! 0 \<noteq> CHR '' '' \<and> line ! 0 \<noteq> CHR ''?''
                         then staged_files q @ [[]] else staged_files q),
        unstaged_files := (if line ! 1 \<noteq> CHR '' '' \<or> take 2 line = ''??''
                           then unstaged_files q @ [[]] else unstaged_files q)\<rparr> \<and>
    ([], take 2 line) \<in> set (all_files (sort_files (parse_lines (before @ line # after) q))) \<and>
    (line ! 0 \<noteq> CHR '' '' \<and> line ! 0 \<noteq> CHR ''?'' \<longrightarrow>
       [] \<in> set (staged_files (sort_files (parse_lines (before @ line # after) q)))) \<and>
    (line ! 1 \<noteq> CHR '' '' \<or> take 2 line = ''??'' \<longrightarrow>
       [] \<in> set (unstaged_files (sort_files (parse_lines (before @ line # after) q))))"
proof -
  let ?q = "parse_lines before q"
  have eq: "parse_lines (before @ line # after) q = parse_lines after (parse_line line ?q)"
    by (simp add: parse_lines_append parse_lines_Cons)
  have "([], take 2 line) \<in> set (all_files (parse_line line ?q))"
    by (simp add: parse_line_three [OF assms])
  moreover have "[] \<in> set (staged_files (parse_line line ?q))"
    if "line ! 0 \<noteq> CHR '' '' \<and> line ! 0 \<noteq> CHR ''?''"
    using that by (simp add: parse_line_three [OF assms])
  moreover have "[] \<in> set (unstaged_files (parse_line line ?q))"
    if "line ! 1 \<noteq> CHR '' '' \<or> take 2 line = ''??''"
    using that by (simp add: parse_line_three [OF assms])
  ultimately show ?thesis
    using parse_lines_grows [of "parse_line line ?q" after] parse_line_three [OF assms, of q]
    unfolding eq set_sort_files by blast
qed

theorem line_of_length_three_kept_witness:
  "length ''MM '' = 3 \<and>
   parse_line ''MM '' ex_start =
     ex_start\<lparr>all_files := [([], ''MM'')], staged_files := [[]], unstaged_files := [[]]\<rparr> \<and>
   ([], ''MM'') \<in> set (all_files (sort_files (parse_lines [''A  x'', ''MM '', ''A  y''] ex_start))) \<and>
   [] \<in> set (staged_files (sort_files (parse_lines [''A  x'', ''MM '', ''A  y''] ex_start))) \<and>
   [] \<in> set (unstaged_files (sort_files (parse_lines [''A  x'', ''MM '', ''A  y''] ex_start)))"
proof -
  have len: "length ''MM '' = 3" by simp
  from line_of_length_three_kept [OF len, of ex_start "[''A  x'']" "[''A  y'']"]
  show ?thesis by (simp add: ex_start_def)
qed

text \<open>
  The output is stripped before it is split. A last line of the raw output that consists
  of a status field and the separator loses the separator there, reaches the loop with
  two characters, and yields no record.
\<close>

theorem trailing_line_of_length_three_discarded:
  "split_newline trailing_stdout = [''A  x'', ''M  '', []] \<and> length ''M  '' = 3 \<and>
   git_status trailing_env (Some ''/repo'') = Completed trailing_stdout \<and>
   run trailing_env ex_start = Inr trailing_menu \<and>
   all_files trailing_menu = [(''x'', ''A '')] \<and>
   ([], ''M '') \<notin> set (all_files trailing_menu)"
  using trailing_run
  by (simp add: trailing_menu_def trailing_stdout_def trailing_env_def newline_def)

section \<open>Claims about failures\<close>

lemma answers_no_panel:
  "panel (window p) = CB_None \<Longrightarrow> answers is p = Inr p"
  by (induction "is") (simp_all add: deliver_def)

text \<open>
  Claim C6. When \<open>git rev-parse\<close> fails, the command does not raise: it shows a notice
  and returns. The notice is the same, "Not in a git repository", whether git is missing
  (\<open>FileNotFoundError\<close>) or the directory is outside every repository
  (\<open>CalledProcessError\<close>): the two runs end in the same state.
\<close>

theorem missing_tool_reported_as_not_a_repository:
  "run (e\<lparr>rev_parse := FileNotFoundError\<rparr>) p0 = run (e\<lparr>rev_parse := CalledProcessError x\<rparr>) p0 \<and>
   (\<exists>p. run (e\<lparr>rev_parse := FileNotFoundError\<rparr>) p0 = Inr p \<and>
        calls (window p) = calls (window p0) @
          [ShowQuickPanel (Rows [[''Not in a git repository'']]) CB_None ''Changed Filter |''])"
  by (simp add: run_def check_git_repo_def)

text \<open>
  Claim C7. When \<open>git status\<close> succeeds and its output is empty once stripped, the run
  makes one call on the window, the notice "No changed files", opens no menu, and no
  answer of the user changes that. A run in which \<open>git status\<close> fails makes two calls,
  the notice of the error and then the notice "No changed files", so the two runs differ.
\<close>

theorem empty_status_reports_no_changed_files:
  assumes "rev_parse e = Completed r" and "git_status e (Some (strip r)) = Completed out"
    and "strip out = []"
    and "rev_parse e' = Completed r'"
    and "git_status e' (Some (strip r')) = CalledProcessError x \<or>
         git_status e' (Some (strip r')) = FileNotFoundError"
  shows "\<exists>p p' message. run e p0 = Inr p \<and> session e p0 is = Inr p \<and>
    calls (window p) = calls (window p0) @
      [ShowQuickPanel (Rows [[''No changed files'']]) CB_None ''Changed Filter |''] \<and>
    panel (window p) = CB_None \<and>
    run e' p0 = Inr p' \<and>
    calls (window p') = calls (window p0) @
      [ShowQuickPanel (Rows [[message]]) CB_None ''Changed Filter |'',
       ShowQuickPanel (Rows [[''No changed files'']]) CB_None ''Changed Filter |''] \<and>
    (message = ''Error running git: '' @ x \<or> message = ''Git not found in PATH'') \<and>
    p' \<noteq> p"
proof -
  let ?q = "p0\<lparr>git_root := None, all_files := [], staged_files := [],
                       unstaged_files := [], current_level := ''filter'',
                       selected_filter := None\<rparr>"
  let ?p = "show_error ''No changed files'' (?q\<lparr>git_root := Some (strip r)\<rparr>)"
  have run: "run e p0 = Inr ?p"
    using assms(1-3) by (simp add: run_def check_git_repo_def get_changed_files_def)
  have sess: "session e p0 is = Inr ?p"
    by (simp add: session_def run answers_no_panel)
  have calls: "calls (window ?p) = calls (window p0) @
      [ShowQuickPanel (Rows [[''No changed files'']]) CB_None ''Changed Filter |'']"
    "panel (window ?p) = CB_None"
    by simp_all
  define message where "message =
    (case git_status e' (Some (strip r')) of
       CalledProcessError y \<Rightarrow> ''Error running git: '' @ y
     | _ \<Rightarrow> ''Git not found in PATH'')"
  have m: "message = ''Error running git: '' @ x \<or> message = ''Git not found in PATH''"
    using assms(5) by (auto simp: message_def)
  have run': "run e' p0 = Inr (show_error ''No changed files''
             (show_error message (?q\<lparr>git_root := Some (strip r')\<rparr>)))"
    using assms(4,5)
    by (auto simp: run_def check_git_repo_def get_changed_files_def message_def)
  let ?p' = "show_error ''No changed files'' (show_error message (?q\<lparr>git_root := Some (strip r')\<rparr>))"
  have calls': "calls (window ?p') = calls (window p0) @
      [ShowQuickPanel (Rows [[message]]) CB_None ''Changed Filter |'',
       ShowQuickPanel (Rows [[''No changed files'']]) CB_None ''Changed Filter |'']"
    by simp
  have "calls (window ?p') \<noteq> calls (window ?p)"
    unfolding calls' calls by simp
  then have "?p' \<noteq> ?p" by (rule contrapos_nn) (erule arg_cong)
  with run sess calls run' calls' m show ?thesis by blast
qed

lemma empty_env_facts:
  "rev_parse empty_env = Completed ex_root_stdout"
  "git_status empty_env (Some (strip ex_root_stdout)) = Completed []"
  "strip [] = []"
  "rev_parse failing_env = Completed ex_root_stdout"
  "git_status failing_env (Some (strip ex_root_stdout)) = CalledProcessError ''exit status 128''"
  by (simp_all add: empty_env_def failing_env_def strip_def)

theorem empty_status_reports_no_changed_files_witness:
  "rev_parse empty_env = Completed ex_root_stdout \<and>
   git_status empty_env (Some (strip ex_root_stdout)) = Completed [] \<and>
   strip [] = [] \<and>
   rev_parse failing_env = Completed ex_root_stdout \<and>
   (git_status failing_env (Some (strip ex_root_stdout)) = CalledProcessError ''exit status 128'' \<or>
    git_status failing_env (Some (strip ex_root_stdout)) = FileNotFoundError) \<and>
   (\<exists>p p'. run empty_env ex_start = Inr p \<and> session empty_env ex_start [0, 1] = Inr p \<and>
      calls (window p) =
        [ShowQuickPanel (Rows [[''No changed files'']]) CB_None ''Changed Filter |''] \<and>
      panel (window p) = CB_None \<and>
      run failing_env ex_start = Inr p' \<and>
      calls (window p') =
        [ShowQuickPanel (Rows [[''Error running git: exit status 128'']]) CB_None ''Changed Filter |'',
         ShowQuickPanel (Rows [[''No changed files'']]) CB_None ''Changed Filter |''] \<and>
      p' \<noteq> p)"
proof -
  have tool: "git_status failing_env (Some (strip ex_root_stdout)) = CalledProcessError ''exit status 128'' \<or>
    git_status failing_env (Some (strip ex_root_stdout)) = FileNotFoundError"
    by (rule disjI1) (rule empty_env_facts(5))
  from empty_status_reports_no_changed_files
    [OF empty_env_facts(1) empty_env_facts(2) empty_env_facts(3) empty_env_facts(4) tool,
      of ex_start "[0, 1]"]
  obtain p p' message where
    *: "run empty_env ex_start = Inr p" "session empty_env ex_start [0, 1] = Inr p"
      "calls (window p) = calls (window ex_start) @
        [ShowQuickPanel (Rows [[''No changed files'']]) CB_None ''Changed Filter |'']"
      "panel (window p) = CB_None"
      "run failing_env ex_start = Inr p'"
      "calls (window p') = calls (window ex_start) @
        [ShowQuickPanel (Rows [[message]]) CB_None ''Changed Filter |'',
         ShowQuickPanel (Rows [[''No changed files'']]) CB_None ''Changed Filter |'']"
      "message = ''Error running git: '' @ ''exit status 128'' \<or> message = ''Git not found in PATH''"
      "p' \<noteq> p"
    by blast
  have "run failing_env ex_start = Inr (show_error ''No changed files''
     (show_error ''Error running git: exit status 128''
        (ex_start\<lparr>git_root := Some (strip ex_root_stdout), current_level := ''filter''\<rparr>)))"
    by (simp add: run_def check_git_repo_def get_changed_files_def failing_env_def ex_start_def)
  with *(5) have "calls (window p') =
      [ShowQuickPanel (Rows [[''Error running git: exit status 128'']]) CB_None ''Changed Filter |'',
       ShowQuickPanel (Rows [[''No changed files'']]) CB_None ''Changed Filter |'']"
    by (auto simp: ex_start_def)
  moreover from *(3) have "calls (window p) =
      [ShowQuickPanel (Rows [[''No changed files'']]) CB_None ''Changed Filter |'']"
    by (simp add: ex_start_def)
  ultimately show ?thesis
    using *(1,2,4,5,8) tool empty_env_facts by blast
qed

section \<open>Claims about the two menus\<close>

lemma show_filter_selection_calls:
  "calls (window (show_filter_selection q)) =
     calls (window q) @ [last (calls (window (show_filter_selection q)))]"
  by (simp add: show_filter_selection_def show_quick_panel_def Let_def)

lemma show_filter_selection_last_cong:
  assumes "all_files q = all_files q'" "staged_files q = staged_files q'"
    "unstaged_files q = unstaged_files q'"
  shows "last (calls (window (show_filter_selection q))) =
         last (calls (window (show_filter_selection q')))"
  using assms by (simp add: show_filter_selection_def show_quick_panel_def Let_def)

lemma show_filter_selection_idem:
  "last (calls (window (show_filter_selection (show_filter_selection q)))) =
   last (calls (window (show_filter_selection q)))"
  by (rule show_filter_selection_last_cong) simp_all

lemma run_menu:
  assumes "run e p0 = Inr p1" and "panel (window p1) \<noteq> CB_None"
  shows "\<exists>q. p1 = show_filter_selection q"
  using assms
  by (auto simp: run_def check_git_repo_def get_changed_files_def Let_def
      split: proc_result.splits if_splits)

lemma run_root:
  assumes "run e p0 = Inr p1" and "panel (window p1) \<noteq> CB_None"
  shows "\<exists>r. rev_parse e = Completed r \<and> git_root p1 = Some (strip r)"
  using assms
  by (auto simp: run_def check_git_repo_def get_changed_files_def Let_def
      split: proc_result.splits if_splits)

lemma answers_open_panel:
  assumes "answers is p1 = Inr p" and "panel (window p) \<noteq> CB_None"
  shows "panel (window p1) \<noteq> CB_None"
  using assms answers_no_panel [of p1 "is"] by auto

text \<open>
  Claim C5. In every state of a session, reached from the run by any answers: when the
  file menu is open, the answer -1 raises nothing, shows the filter menu again (the very
  call the run made when it showed it first) and leaves the filter menu open; when the
  filter menu is open, the answer -1 raises nothing, makes no call on the window (no
  notice, no file opened) and leaves no panel open, after which no answer changes anything.
\<close>

theorem cancel_in_each_state:
  assumes "run e p0 = Inr p1" and "answers is p1 = Inr p"
  shows "(panel (window p) = CB_on_file_selected \<longrightarrow>
      (\<exists>p' rs. deliver (- 1) p = Inr p' \<and> panel (window p') = CB_on_filter_selected \<and>
         calls (window p') = calls (window p) @ [last (calls (window p1))] \<and>
         last (calls (window p1)) =
           ShowQuickPanel (Rows rs) CB_on_filter_selected ''Changed Filter |'')) \<and>
    (panel (window p) = CB_on_filter_selected \<longrightarrow>
      (\<exists>p'. deliver (- 1) p = Inr p' \<and> panel (window p') = CB_None \<and>
         calls (window p') = calls (window p) \<and> answers js p' = Inr p'))"
proof (intro conjI impI)
  assume in_file: "panel (window p) = CB_on_file_selected"
  from in_file have "panel (window p1) \<noteq> CB_None"
    using answers_open_panel [OF assms(2)] by simp
  from run_menu [OF assms(1) this] obtain q where q: "p1 = show_filter_selection q" ..
  let ?p' = "show_filter_selection (close_panel p)"
  have d: "deliver (- 1) p = Inr ?p'"
    using in_file by (simp add: deliver_def on_file_selected_def)
  have "last (calls (window ?p')) = last (calls (window (show_filter_selection p1)))"
    using answers_fields [OF assms(2)] by (intro show_filter_selection_last_cong) simp_all
  also have "\<dots> = last (calls (window p1))"
    unfolding q by (rule show_filter_selection_idem)
  finally have l: "last (calls (window ?p')) = last (calls (window p1))" .
  have c: "calls (window ?p') = calls (window p) @ [last (calls (window p1))]"
    using show_filter_selection_calls [of "close_panel p"] l by simp
  obtain rs where "calls (window p1) =
     calls (window q) @ [ShowQuickPanel (Rows rs) CB_on_filter_selected ''Changed Filter |'']"
    unfolding q using show_filter_selection_window(2) by blast
  then have "last (calls (window p1)) =
     ShowQuickPanel (Rows rs) CB_on_filter_selected ''Changed Filter |''" by simp
  with d c show "\<exists>p' rs. deliver (- 1) p = Inr p' \<and> panel (window p') = CB_on_filter_selected \<and>
         calls (window p') = calls (window p) @ [last (calls (window p1))] \<and>
         last (calls (window p1)) =
           ShowQuickPanel (Rows rs) CB_on_filter_selected ''Changed Filter |''"
    by (intro exI [of _ ?p'] exI [of _ rs]) simp
next
  assume in_filter: "panel (window p) = CB_on_filter_selected"
  have d: "deliver (- 1) p = Inr (close_panel p)"
    using in_filter by (simp add: deliver_def on_filter_selected_def)
  have "answers js (close_panel p) = Inr (close_panel p)"
    by (rule answers_no_panel) simp
  with d show "\<exists>p'. deliver (- 1) p = Inr p' \<and> panel (window p') = CB_None \<and>
         calls (window p') = calls (window p) \<and> answers js p' = Inr p'"
    by (intro exI [of _ "close_panel p"]) simp
qed

lemma ex_answers_all: "answers [0] ex_menu = Inr ex_all_menu"
  by (simp add: ex_deliver_all)

lemma ex_answers_none: "answers [] ex_menu = Inr ex_menu"
  by simp

theorem cancel_in_each_state_witness:
  "run ex_env ex_start = Inr ex_menu \<and> answers [0] ex_menu = Inr ex_all_menu \<and>
   panel (window ex_all_menu) = CB_on_file_selected \<and>
   (\<exists>p'. deliver (- 1) ex_all_menu = Inr p' \<and> panel (window p') = CB_on_filter_selected \<and>
      calls (window p') = calls (window ex_all_menu) @ [ex_filter_menu]) \<and>
   answers [] ex_menu = Inr ex_menu \<and> panel (window ex_menu) = CB_on_filter_selected \<and>
   (\<exists>p'. deliver (- 1) ex_menu = Inr p' \<and> panel (window p') = CB_None \<and>
      calls (window p') = [ex_filter_menu] \<and> answers [0, 2] p' = Inr p')"
proof -
  have s: "panel (window ex_all_menu) = CB_on_file_selected"
    "panel (window ex_menu) = CB_on_filter_selected"
    "last (calls (window ex_menu)) = ex_filter_menu"
    "calls (window ex_menu) = [ex_filter_menu]"
    by (simp_all add: ex_all_menu_def ex_menu_def)
  from cancel_in_each_state [OF ex_run ex_answers_all] s
  have a: "\<exists>p'. deliver (- 1) ex_all_menu = Inr p' \<and> panel (window p') = CB_on_filter_selected \<and>
      calls (window p') = calls (window ex_all_menu) @ [ex_filter_menu]"
    by auto
  from cancel_in_each_state [OF ex_run ex_answers_none, of "[0, 2]"] s
  have b: "\<exists>p'. deliver (- 1) ex_menu = Inr p' \<and> panel (window p') = CB_None \<and>
      calls (window p') = [ex_filter_menu] \<and> answers [0, 2] p' = Inr p'"
    by auto
  from a b s ex_run ex_answers_all ex_answers_none show ?thesis by blast
qed

lemma show_file_list_displays:
  assumes "last (calls (window (show_file_list q))) = ShowQuickPanel (Paths gs) cb ph"
  shows "selection_files (close_panel (show_file_list q)) = gs"
proof -
  have "selection_files (close_panel (show_file_list q)) = selection_files q"
    by (rule selection_files_cong) simp_all
  moreover have "selection_files q = gs"
    using assms
    by (auto simp: show_file_list_def show_error_def show_quick_panel_def
        selection_files_def Let_def split: if_splits)
  ultimately show ?thesis by simp
qed

lemma session_root:
  assumes "session e p0 is = Inr p" and "panel (window p) \<noteq> CB_None"
  shows "\<exists>r. rev_parse e = Completed r \<and> git_root p = Some (strip r)"
proof -
  from assms(1) obtain p1 where r: "run e p0 = Inr p1" and a: "answers is p1 = Inr p"
    by (auto simp: session_def split: sum.splits)
  from run_root [OF r answers_open_panel [OF a assms(2)]] answers_fields [OF a]
  show ?thesis by simp
qed

lemma getitem_in_range:
  "0 \<le> i \<Longrightarrow> i < int (length xs) \<Longrightarrow> getitem xs i = Inr (xs ! nat i)"
  by (simp add: getitem_def)

lemma getitem_beyond:
  "int (length xs) \<le> i \<Longrightarrow> getitem xs i = Inl IndexError"
  by (simp add: getitem_def)

lemma on_file_selected_opens:
  assumes "selection_files q = fs" and "git_root q = Some root"
    and "0 \<le> i" and "i < int (length fs)"
  shows "on_file_selected i q =
    Inr (q\<lparr>window := open_file (os_path_join root (fs ! nat i)) (window q)\<rparr>)"
  using assms by (simp add: on_file_selected_def getitem_in_range)

text \<open>
  Claim C8. In every state of a session in which the file menu is open and shows the list
  \<open>fs\<close>, choosing index \<open>i\<close> of that list makes exactly one more call on the window,
  \<open>open_file\<close> with \<open>os.path.join\<close> of the repository root (the stripped output of
  \<open>git rev-parse\<close>) and the path \<open>fs[i]\<close>; no panel is open afterwards and no later
  answer changes anything. The joined path is root, \<open>/\<close>, path when the root is not empty
  and does not end with \<open>/\<close> and the path does not start with \<open>/\<close>.
\<close>

theorem chosen_file_opened_once:
  assumes "session e p0 is = Inr p"
    and "panel (window p) = CB_on_file_selected"
    and "last (calls (window p)) = ShowQuickPanel (Paths fs) cb ph"
    and "0 \<le> i" and "i < int (length fs)"
  shows "\<exists>r p'. rev_parse e = Completed r \<and> git_root p = Some (strip r) \<and>
    deliver i p = Inr p' \<and>
    calls (window p') = calls (window p) @ [OpenFile (os_path_join (strip r) (fs ! nat i))] \<and>
    panel (window p') = CB_None \<and> answers js p' = Inr p' \<and>
    (strip r \<noteq> [] \<and> \<not> endswith (strip r) CHR ''/'' \<and> \<not> startswith (fs ! nat i) CHR ''/'' \<longrightarrow>
       os_path_join (strip r) (fs ! nat i) = strip r @ ''/'' @ fs ! nat i)"
proof -
  from session_root [OF assms(1)] assms(2) obtain r where
    r: "rev_parse e = Completed r" "git_root p = Some (strip r)" by auto
  have fs: "selection_files (close_panel p) = fs"
    using session_file_menu(2) [OF assms(1,3)]
    by (simp add: selection_files_cong [of "close_panel p" p])
  let ?p' = "(close_panel p)\<lparr>window :=
     open_file (os_path_join (strip r) (fs ! nat i)) (window (close_panel p))\<rparr>"
  have "on_file_selected i (close_panel p) = Inr ?p'"
    using on_file_selected_opens [OF fs _ assms(4,5), of "strip r"] r(2) by simp
  then have d: "deliver i p = Inr ?p'"
    using assms(2) by (simp add: deliver_def)
  have w: "calls (window ?p') = calls (window p) @ [OpenFile (os_path_join (strip r) (fs ! nat i))]"
    "panel (window ?p') = CB_None"
    by (simp_all add: open_file_def)
  have "answers js ?p' = Inr ?p'"
    by (rule answers_no_panel) (rule w(2))
  with r d w show ?thesis
    by (intro exI [of _ r] exI [of _ ?p']) (simp add: os_path_join_def)
qed

theorem chosen_file_opened_once_witness:
  "session ex_env ex_start [0] = Inr ex_all_menu \<and>
   panel (window ex_all_menu) = CB_on_file_selected \<and>
   last (calls (window ex_all_menu)) =
     ShowQuickPanel (Paths [''a.txt'', ''b.txt'', ''c.txt'', ''d.txt'']) CB_on_file_selected
       ''Changed Filter | All Changes |'' \<and>
   (0::int) \<le> 1 \<and> (1::int) < int (length [''a.txt'', ''b.txt'', ''c.txt'', ''d.txt'']) \<and>
   git_root ex_all_menu = Some ''/repo'' \<and>
   (\<exists>p'. deliver 1 ex_all_menu = Inr p' \<and>
      calls (window p') = calls (window ex_all_menu) @ [OpenFile ''/repo/b.txt''] \<and>
      panel (window p') = CB_None \<and> answers [0, - 1] p' = Inr p')"
proof -
  have h: "panel (window ex_all_menu) = CB_on_file_selected"
    "last (calls (window ex_all_menu)) =
     ShowQuickPanel (Paths [''a.txt'', ''b.txt'', ''c.txt'', ''d.txt'']) CB_on_file_selected
       ''Changed Filter | All Changes |''"
    "(0::int) \<le> 1" "(1::int) < int (length [''a.txt'', ''b.txt'', ''c.txt'', ''d.txt''])"
    by (simp_all add: ex_all_menu_def ex_menu_def)
  have root: "git_root ex_all_menu = Some ''/repo''"
    by (simp add: ex_all_menu_def ex_menu_def)
  from chosen_file_opened_once [OF ex_session_all h, of "[0, - 1]"]
  obtain r p' where *: "git_root ex_all_menu = Some (strip r)"
    "deliver 1 ex_all_menu = Inr p'"
    "calls (window p') = calls (window ex_all_menu) @
       [OpenFile (os_path_join (strip r) ([''a.txt'', ''b.txt'', ''c.txt'', ''d.txt''] ! nat 1))]"
    "panel (window p') = CB_None" "answers [0, - 1] p' = Inr p'"
    by blast
  from *(1) root have "strip r = ''/repo''" by simp
  with *(3) have "calls (window p') = calls (window ex_all_menu) @ [OpenFile ''/repo/b.txt'']"
    by (simp add: os_path_join_def startswith_def endswith_def)
  with * h root ex_session_all show ?thesis by blast
qed

text \<open>
  Claim C10. The list \<open>_on_file_selected\<close> computes again equals the list the file menu
  shows: in every state of a session whose last call shows a list of paths, and after any
  call of \<open>_show_file_list\<close> that shows one, whatever the filter. So an index within the
  list opens the file shown at that index, and an index beyond its end raises
  \<open>IndexError\<close>.
\<close>

theorem selection_list_is_displayed_list:
  assumes "session e p0 is = Inr p"
    and "last (calls (window p)) = ShowQuickPanel (Paths fs) cb ph"
    and "last (calls (window (show_file_list q))) = ShowQuickPanel (Paths gs) cb' ph'"
  shows "selection_files (close_panel p) = fs \<and>
    selection_files (close_panel (show_file_list q)) = gs \<and>
    (0 \<le> i \<and> i < int (length fs) \<longrightarrow>
       (\<exists>root. git_root p = Some root \<and>
          deliver i p = Inr ((close_panel p)\<lparr>window :=
            open_file (os_path_join root (fs ! nat i)) (window (close_panel p))\<rparr>))) \<and>
    (int (length fs) \<le> i \<longrightarrow> deliver i p = Inl IndexError)"
proof -
  have fs: "selection_files (close_panel p) = fs"
    using session_file_menu(2) [OF assms(1,2)]
    by (simp add: selection_files_cong [of "close_panel p" p])
  have pan: "panel (window p) = CB_on_file_selected"
    using session_file_menu(4) [OF assms(1,2)] .
  from session_file_menu(5) [OF assms(1,2)] obtain root where root: "git_root p = Some root"
    by auto
  have "deliver i p = Inr ((close_panel p)\<lparr>window :=
            open_file (os_path_join root (fs ! nat i)) (window (close_panel p))\<rparr>)"
    if "0 \<le> i" "i < int (length fs)"
    using on_file_selected_opens [OF fs _ that, of root] root pan by (simp add: deliver_def)
  moreover have "deliver i p = Inl IndexError" if "int (length fs) \<le> i"
  proof -
    from that have "i \<noteq> - 1" by simp
    then show ?thesis
      using pan fs that by (simp add: deliver_def on_file_selected_def getitem_beyond)
  qed
  ultimately show ?thesis
    using fs show_file_list_displays [OF assms(3)] root by blast
qed

theorem selection_list_is_displayed_list_witness:
  "session ex_env ex_start [0] = Inr ex_all_menu \<and>
   last (calls (window ex_all_menu)) =
     ShowQuickPanel (Paths [''a.txt'', ''b.txt'', ''c.txt'', ''d.txt'']) CB_on_file_selected
       ''Changed Filter | All Changes |'' \<and>
   last (calls (window (show_file_list (ex_menu\<lparr>selected_filter := Some ''staged''\<rparr>)))) =
     ShowQuickPanel (Paths [''a.txt'', ''d.txt'']) CB_on_file_selected
       ''Changed Filter | Staged Only |'' \<and>
   selection_files (close_panel ex_all_menu) = [''a.txt'', ''b.txt'', ''c.txt'', ''d.txt''] \<and>
   selection_files (close_panel (show_file_list (ex_menu\<lparr>selected_filter := Some ''staged''\<rparr>))) =
     [''a.txt'', ''d.txt''] \<and>
   (0::int) \<le> 3 \<and> (3::int) < int (length [''a.txt'', ''b.txt'', ''c.txt'', ''d.txt'']) \<and>
   (\<exists>root. git_root ex_all_menu = Some root \<and>
      deliver 3 ex_all_menu = Inr ((close_panel ex_all_menu)\<lparr>window :=
        open_file (os_path_join root ''d.txt'') (window (close_panel ex_all_menu))\<rparr>))"
proof -
  have h: "last (calls (window ex_all_menu)) =
     ShowQuickPanel (Paths [''a.txt'', ''b.txt'', ''c.txt'', ''d.txt'']) CB_on_file_selected
       ''Changed Filter | All Changes |''"
    by (simp add: ex_all_menu_def ex_menu_def)
  have g: "last (calls (window (show_file_list (ex_menu\<lparr>selected_filter := Some ''staged''\<rparr>)))) =
     ShowQuickPanel (Paths [''a.txt'', ''d.txt'']) CB_on_file_selected
       ''Changed Filter | Staged Only |''"
    by (simp add: show_file_list_def show_quick_panel_def ex_menu_def)
  from selection_list_is_displayed_list [OF ex_session_all h g, of 3] h g ex_session_all
  show ?thesis by simp
qed

end
